theory Spec2Isabelle
  imports Complex_Main
begin

section \<open>Distance variation function filter: \<^verbatim>\<open>saf_utility_dvf.c\<close>\<close>

text \<open>
  The C module computes with \<^verbatim>\<open>float\<close> and \<^verbatim>\<open>double\<close>. For the formulas the code
  evaluates, both are embedded as \<^typ>\<open>real\<close>: every arithmetic operation is the exact
  one, without rounding, overflow to infinity or NaN. A division whose divisor is zero
  is \<open>0\<close> in HOL, where C gives an infinity or a NaN; no theorem below relies on the value
  of such a quotient except where it says so. Where rounding decides a property, the
  bound on the coefficient \<open>a1\<close>, \<^verbatim>\<open>calcIIRCoeffs\<close> is embedded a second time with every
  operation rounded to single precision. C \<^verbatim>\<open>int\<close> is \<^typ>\<open>int\<close> with the 32-bit range
  checked where a value is created. Out-pointers become returned tuples. Behaviour
  that C leaves undefined (a table read out of range, a conversion to \<^verbatim>\<open>int\<close> out of
  range, signed overflow) is a value of type \<open>error\<close>.
\<close>

datatype error =
    IndexOutOfBounds int   \<comment> \<open>read of a 19-entry table at this index\<close>
  | CastOutOfRange         \<comment> \<open>\<^verbatim>\<open>(int)x\<close> with the truncated \<open>x\<close> outside \<^verbatim>\<open>int\<close>\<close>
  | SignedOverflow         \<comment> \<open>\<^verbatim>\<open>int\<close> addition leaving the range\<close>

subsection \<open>Table 1: the coefficient rows (lines 38 to 50)\<close>

definition p11 :: "real list" where
  "p11 = [12.97, 13.19, 12.13, 11.19, 9.91, 8.328, 6.493, 4.455, 2.274, 0.018,
          -2.24, -4.43, -6.49, -8.34, -9.93, -11.3, -12.2, -12.8, -13]"

definition p21 :: "real list" where
  "p21 = [-9.69, 234.2, -11.2, -9.03, -7.87, -7.42, -7.31, -7.28, -7.29, -7.48,
          -8.04, -9.23, -11.6, -17.4, -48.4, 9.149, 1.905, -0.75, -1.32]"

definition q11 :: "real list" where
  "q11 = [-1.14, 18.48, -1.25, -1.02, -0.83, -0.67, -0.5, -0.32, -0.11, -0.13,
          0.395, 0.699, 1.084, 1.757, 4.764, -0.64, 0.109, 0.386, 0.45]"

definition q21 :: "real list" where
  "q21 = [0.219, -8.5, 0.346, 0.336, 0.379, 0.421, 0.423, 0.382, 0.314, 0.24,
          0.177, 0.132, 0.113, 0.142, 0.462, -0.14, -0.08, -0.06, -0.05]"

definition p12 :: "real list" where
  "p12 = [-4.39, -4.31, -4.18, -4.01, -3.87, -4.1, -3.87, -5.02, -6.72, -8.69,
          -11.2, -12.1, -11.1, -11.1, -9.72, -8.42, -7.44, -6.78, -6.58]"

definition p22 :: "real list" where
  "p22 = [2.123, -2.78, 4.224, 3.039, -0.57, -34.7, 3.271, 0.023, -8.96, -58.4,
          11.47, 8.716, 21.8, 1.91, -0.04, -0.66, 0.395, 2.662, 3.387]"

definition q12 :: "real list" where
  "q12 = [-0.55, 0.59, -1.01, -0.56, 0.665, 11.39, -1.57, -0.87, 0.37, 5.446,
          -1.13, -0.63, -2.01, 0.15, 0.243, 0.147, -0.18, -0.67, -0.84]"

definition q22 :: "real list" where
  "q22 = [-0.06, -0.17, -0.02, -0.32, -1.13, -8.3, 0.637, 0.325, -0.08, -1.19,
          0.103, -0.12, 0.098, -0.4, -0.41, -0.34, -0.18, 0.05, 0.131]"

definition p13 :: "real list" where
  "p13 = [0.457, 0.455, -0.87, 0.465, 0.494, 0.549, 0.663, 0.691, 3.507, -27.4,
          6.371, 7.032, 7.092, 7.463, 7.453, 8.101, 8.702, 8.925, 9.317]"

definition p23 :: "real list" where
  "p23 = [-0.67, 0.142, 3404, -0.91, -0.67, -1.21, -1.76, 4.655, 55.09, 10336,
          1.735, 40.88, 23.86, 102.8, -6.14, -18.1, -9.05, -9.03, -6.89]"

definition p33 :: "real list" where
  "p33 = [0.174, -0.11, -1699, 0.437, 0.658, 2.02, 6.815, 0.614, 589.3, 16818,
          -9.39, -44.1, -23.6, -92.3, -1.81, 10.54, 0.532, 0.285, -2.08]"

definition q13 :: "real list" where
  "q13 = [-1.75, -0.01, 7354, -2.18, -1.2, -1.59, -1.23, -0.89, 29.23, 1945,
          -0.06, 5.635, 3.308, 13.88, -0.88, -2.23, -0.96, -0.9, -0.57]"

definition q23 :: "real list" where
  "q23 = [0.699, -0.35, -5350, 1.188, 0.256, 0.816, 1.166, 0.76, 59.51, 1707,
          -1.12, -6.18, -3.39, -12.7, -0.19, 1.295, -0.02, -0.08, -0.4]"

text \<open>A read \<^verbatim>\<open>t[i]\<close> of one of the rows; outside the array C's behaviour is undefined.\<close>

definition row_at :: "real list \<Rightarrow> int \<Rightarrow> error + real" where
  "row_at t i =
     (if 0 \<le> i \<and> i < int (length t) then Inr (t ! nat i) else Inl (IndexOutOfBounds i))"

subsection \<open>Constants (lines 52 to 56)\<close>

definition sizeof_float :: int where
  \<comment> \<open>size in bytes of the IEEE single-precision \<^verbatim>\<open>float\<close>\<close>
  "sizeof_float = 4"

definition numAz_table :: int where
  \<comment> \<open>\<^verbatim>\<open>sizeof(q23)\<close>: the size of the array object in bytes\<close>
  "numAz_table = int (length q23) * sizeof_float"

definition a_0 :: real where
  "a_0 = 0.0875"

definition a_head :: real where
  "a_head = 0.09096"

definition SAF_PI :: real where
  \<comment> \<open>Modelled from the spec: the macro \<^verbatim>\<open>SAF_PI\<close> is declared in a header that is
      not among the sources; the spec writes \<open>\<pi>\<close>.\<close>
  "SAF_PI = pi"

definition headDim :: real where
  "headDim = SAF_PI * (a_0 / a_head)"

definition sosDiv2PiA :: real where
  "sosDiv2PiA = 343 / (2 * SAF_PI * a_head)"

definition INT_MIN :: int where
  "INT_MIN = - (2 ^ 31)"

definition INT_MAX :: int where
  "INT_MAX = 2 ^ 31 - 1"

subsection \<open>Helpers (lines 59 to 76)\<close>

definition interpolate_lin :: "real \<Rightarrow> real \<Rightarrow> real \<Rightarrow> real" where
  "interpolate_lin a b ifac = a + (b - a) * ifac"

definition db2mag :: "real \<Rightarrow> real" where
  \<comment> \<open>\<^verbatim>\<open>powf(10.f, dB / 20.f)\<close>\<close>
  "db2mag dB = 10 powr (dB / 20)"

definition float_to_int :: "real \<Rightarrow> error + int" where
  \<comment> \<open>the cast \<^verbatim>\<open>(int)x\<close>: the fractional part is discarded (truncation toward zero)\<close>
  "float_to_int x =
     (let t = (if 0 \<le> x then \<lfloor>x\<rfloor> else \<lceil>x\<rceil>)
      in if INT_MIN \<le> t \<and> t \<le> INT_MAX then Inr t else Inl CastOutOfRange)"

subsection \<open>Shelf parameters at a table index (lines 81 to 101)\<close>

definition calcHighShelfParams :: "int \<Rightarrow> real \<Rightarrow> error + (real \<times> real \<times> real)" where
  \<comment> \<open>the thirteen rows have the same length, so the thirteen reads at \<open>i\<close> are in range
      together; the result is \<open>(g0, gInf, fc)\<close>\<close>
  "calcHighShelfParams i rhoIn =
     (case row_at p11 i of
        Inl e \<Rightarrow> Inl e
      | Inr _ \<Rightarrow>
         (let rho = rhoIn;
              rhoSq = rho ^ 2;
              t = (\<lambda>row. row ! nat i);
              g0 = (t p11 * rho + t p21) / (rhoSq + t q11 * rho + t q21);
              gInf = (t p12 * rho + t p22) / (rhoSq + t q12 * rho + t q22);
              fc_tmp = (t p13 * rhoSq + t p23 * rho + t p33) / (rhoSq + t q13 * rho + t q23)
          in Inr (g0, gInf, fc_tmp * sosDiv2PiA)))"

subsection \<open>Interpolation over azimuth (lines 107 to 142)\<close>

definition interp_indices :: "real \<Rightarrow> error + (int \<times> int)" where
  \<comment> \<open>lines 128 to 133: the pair \<open>(theta_idx_lower, theta_idx_upper)\<close> from \<open>thetaDiv10\<close>\<close>
  "interp_indices thetaDiv10 =
     (case float_to_int thetaDiv10 of
        Inl e \<Rightarrow> Inl e
      | Inr theta_idx_lower \<Rightarrow>
          if theta_idx_lower = INT_MAX then Inl SignedOverflow
          else
            (let theta_idx_upper = theta_idx_lower + 1
             in if theta_idx_upper = numAz_table
                then Inr (theta_idx_lower - 1, theta_idx_lower)
                else Inr (theta_idx_lower, theta_idx_upper)))"

definition interpHighShelfParams :: "real \<Rightarrow> real \<Rightarrow> error + (real \<times> real \<times> real)" where
  "interpHighShelfParams theta rho =
     (let thetaDiv10 = theta / 10
      in case interp_indices thetaDiv10 of
           Inl e \<Rightarrow> Inl e
         | Inr (theta_idx_lower, theta_idx_upper) \<Rightarrow>
            (case calcHighShelfParams theta_idx_lower rho of
               Inl e \<Rightarrow> Inl e
             | Inr (g0_1, gInf_1, fc_1) \<Rightarrow>
                (case calcHighShelfParams theta_idx_upper rho of
                   Inl e \<Rightarrow> Inl e
                 | Inr (g0_2, gInf_2, fc_2) \<Rightarrow>
                    (let ifac = thetaDiv10 - of_int theta_idx_lower
                     in Inr (interpolate_lin g0_1 g0_2 ifac,
                             interpolate_lin gInf_1 gInf_2 ifac,
                             interpolate_lin fc_1 fc_2 ifac)))))"

text \<open>
  The same two functions on a machine where a read past the end of a row does not trap
  but yields whatever the memory holds there: \<open>stray row i\<close> is the value read from
  \<open>row\<close> at an index \<open>i\<close> outside it. Nothing is assumed of \<open>stray\<close>.
\<close>

definition row_read :: "(real list \<Rightarrow> int \<Rightarrow> real) \<Rightarrow> real list \<Rightarrow> int \<Rightarrow> real" where
  "row_read stray t i =
     (if 0 \<le> i \<and> i < int (length t) then t ! nat i else stray t i)"

definition calcHighShelfParams_mem ::
  "(real list \<Rightarrow> int \<Rightarrow> real) \<Rightarrow> int \<Rightarrow> real \<Rightarrow> real \<times> real \<times> real" where
  "calcHighShelfParams_mem stray i rhoIn =
     (let rho = rhoIn;
          rhoSq = rho ^ 2;
          t = (\<lambda>row. row_read stray row i);
          g0 = (t p11 * rho + t p21) / (rhoSq + t q11 * rho + t q21);
          gInf = (t p12 * rho + t p22) / (rhoSq + t q12 * rho + t q22);
          fc_tmp = (t p13 * rhoSq + t p23 * rho + t p33) / (rhoSq + t q13 * rho + t q23)
      in (g0, gInf, fc_tmp * sosDiv2PiA))"

definition interpHighShelfParams_mem ::
  "(real list \<Rightarrow> int \<Rightarrow> real) \<Rightarrow> real \<Rightarrow> real \<Rightarrow> error + (real \<times> real \<times> real)" where
  "interpHighShelfParams_mem stray theta rho =
     (let thetaDiv10 = theta / 10
      in case interp_indices thetaDiv10 of
           Inl e \<Rightarrow> Inl e
         | Inr (theta_idx_lower, theta_idx_upper) \<Rightarrow>
            (case calcHighShelfParams_mem stray theta_idx_lower rho of
               (g0_1, gInf_1, fc_1) \<Rightarrow>
                (case calcHighShelfParams_mem stray theta_idx_upper rho of
                   (g0_2, gInf_2, fc_2) \<Rightarrow>
                    (let ifac = thetaDiv10 - of_int theta_idx_lower
                     in Inr (interpolate_lin g0_1 g0_2 ifac,
                             interpolate_lin gInf_1 gInf_2 ifac,
                             interpolate_lin fc_1 fc_2 ifac)))))"

subsection \<open>IIR coefficients (lines 147 to 179)\<close>

definition calcIIRCoeffs :: "real \<Rightarrow> real \<Rightarrow> real \<Rightarrow> real \<Rightarrow> real \<times> real \<times> real" where
  \<comment> \<open>the result is \<open>(b0, b1, a1)\<close>\<close>
  "calcIIRCoeffs g0 gInf fc fs =
     (let v0 = db2mag gInf;
          g0_mag = db2mag g0;
          tanF = tan ((headDim / fs) * fc);
          v0tanF = v0 * tanF;
          a_c = (v0tanF - 1) / (v0tanF + 1);
          v = (v0 - 1) * 0.5;
          va_c = v * a_c
      in (g0_mag * (v - va_c + 1), g0_mag * (va_c - v + a_c), a_c))"

subsection \<open>IIR coefficients in single precision (lines 53 to 55, 70 to 76, 147 to 179)\<close>

text \<open>
  IEEE 754 binary32 with rounding to nearest, ties to even: 24 significant bits,
  exponents from -126 to 127, gradual underflow below \<open>2\<^sup>-\<^sup>1\<^sup>2\<^sup>6\<close>, overflow to an infinity
  from \<open>2\<^sup>1\<^sup>2\<^sup>8\<close> on. A value of type \<open>f32\<close> is \<open>Some x\<close> for the finite number \<open>x\<close> and
  \<open>None\<close> for an infinity or a NaN; the two zeros are one. Every operation of the C
  function rounds its exact result once (no wider intermediate format, no fused
  multiply-add); \<^verbatim>\<open>powf\<close> and \<^verbatim>\<open>tanf\<close> are taken as correctly rounded. An operation with
  a non-finite operand gives \<open>None\<close>: in \<^verbatim>\<open>calcIIRCoeffs\<close> no divisor can be infinite
  while its dividend is finite, so no finite result is lost by this.
\<close>

definition rne :: "real \<Rightarrow> int" where
  \<comment> \<open>the nearest integer, the even one of two nearest\<close>
  "rne r =
     (let f = \<lfloor>r\<rfloor>; d = r - of_int f
      in if d < 1 / 2 then f else if 1 / 2 < d then f + 1 else if even f then f else f + 1)"

definition f32_exp :: "real \<Rightarrow> int" where
  \<comment> \<open>the binary exponent of a positive number, not below that of the subnormals\<close>
  "f32_exp a = max \<lfloor>log 2 a\<rfloor> (- 126)"

definition round_mag :: "real \<Rightarrow> real" where
  \<comment> \<open>a magnitude rounded to a multiple of its unit in the last place\<close>
  "round_mag a =
     (if a = 0 then 0
      else let u = 2 powr of_int (f32_exp a - 23) in of_int (rne (a / u)) * u)"

definition round_f32 :: "real \<Rightarrow> real option" where
  "round_f32 x = (let r = round_mag \<bar>x\<bar> in if 2 ^ 128 \<le> r then None else Some (sgn x * r))"

definition FLT_MAX :: real where
  "FLT_MAX = 2 ^ 128 - 2 ^ 104"

type_synonym f32 = "real option"

definition fadd :: "f32 \<Rightarrow> f32 \<Rightarrow> f32" where
  "fadd a b =
     (case a of None \<Rightarrow> None
      | Some x \<Rightarrow> (case b of None \<Rightarrow> None | Some y \<Rightarrow> round_f32 (x + y)))"

definition fsub :: "f32 \<Rightarrow> f32 \<Rightarrow> f32" where
  "fsub a b =
     (case a of None \<Rightarrow> None
      | Some x \<Rightarrow> (case b of None \<Rightarrow> None | Some y \<Rightarrow> round_f32 (x - y)))"

definition fmul :: "f32 \<Rightarrow> f32 \<Rightarrow> f32" where
  "fmul a b =
     (case a of None \<Rightarrow> None
      | Some x \<Rightarrow> (case b of None \<Rightarrow> None | Some y \<Rightarrow> round_f32 (x * y)))"

definition fdiv :: "f32 \<Rightarrow> f32 \<Rightarrow> f32" where
  \<comment> \<open>a zero divisor gives an infinity or a NaN\<close>
  "fdiv a b =
     (case a of None \<Rightarrow> None
      | Some x \<Rightarrow>
         (case b of None \<Rightarrow> None
          | Some y \<Rightarrow> if y = 0 then None else round_f32 (x / y)))"

definition tanf :: "f32 \<Rightarrow> f32" where
  "tanf a = (case a of None \<Rightarrow> None
             | Some x \<Rightarrow> if cos x = 0 then None else round_f32 (tan x))"

definition db2mag_f32 :: "f32 \<Rightarrow> f32" where
  \<comment> \<open>\<^verbatim>\<open>powf(10.f, dB / 20.f)\<close>\<close>
  "db2mag_f32 dB =
     (case fdiv dB (Some 20) of None \<Rightarrow> None | Some y \<Rightarrow> round_f32 (10 powr y))"

definition a_0_f32 :: f32 where
  "a_0_f32 = round_f32 0.0875"

definition a_head_f32 :: f32 where
  "a_head_f32 = round_f32 0.09096"

definition SAF_PI_f32 :: f32 where
  \<comment> \<open>Modelled from the spec: the macro \<^verbatim>\<open>SAF_PI\<close> of the absent header, \<open>\<pi>\<close> as a
      \<^verbatim>\<open>float\<close>.\<close>
  "SAF_PI_f32 = round_f32 pi"

definition headDim_f32 :: f32 where
  "headDim_f32 = fmul SAF_PI_f32 (fdiv a_0_f32 a_head_f32)"

definition tanArg_f32 :: "real \<Rightarrow> real \<Rightarrow> f32" where
  \<comment> \<open>line 170: the argument \<^verbatim>\<open>(headDim / fs) * fc\<close> of \<^verbatim>\<open>tanf\<close>\<close>
  "tanArg_f32 fc fs = fmul (fdiv headDim_f32 (Some fs)) (Some fc)"

definition v0tanF_f32 :: "real \<Rightarrow> real \<Rightarrow> real \<Rightarrow> f32" where
  \<comment> \<open>line 171: the local \<^verbatim>\<open>v0tanF\<close>\<close>
  "v0tanF_f32 gInf fc fs = fmul (db2mag_f32 (Some gInf)) (tanf (tanArg_f32 fc fs))"

definition calcIIRCoeffs_f32 :: "real \<Rightarrow> real \<Rightarrow> real \<Rightarrow> real \<Rightarrow> f32 \<times> f32 \<times> f32" where
  \<comment> \<open>the arguments are finite \<^verbatim>\<open>float\<close> values; the result is \<open>(b0, b1, a1)\<close>\<close>
  "calcIIRCoeffs_f32 g0 gInf fc fs =
     (let v0 = db2mag_f32 (Some gInf);
          g0_mag = db2mag_f32 (Some g0);
          tanF = tanf (tanArg_f32 fc fs);
          v0tanF = fmul v0 tanF;
          a_c = fdiv (fsub v0tanF (Some 1)) (fadd v0tanF (Some 1));
          v = fmul (fsub v0 (Some 1)) (Some 0.5);
          va_c = fmul v a_c
      in (fmul g0_mag (fadd (fsub v va_c) (Some 1)),
          fmul g0_mag (fadd (fsub va_c v) a_c),
          a_c))"

definition f32_between :: "real \<Rightarrow> real \<Rightarrow> f32 \<Rightarrow> bool" where
  \<comment> \<open>a finite value strictly between two bounds\<close>
  "f32_between lo hi a = (case a of None \<Rightarrow> False | Some t \<Rightarrow> lo < t \<and> t < hi)"

definition fc_1e4 :: real where
  \<comment> \<open>the \<^verbatim>\<open>float\<close> nearest to \<open>10\<^sup>-\<^sup>4\<close>, written \<^verbatim>\<open>1e-4f\<close> in C\<close>
  "fc_1e4 = 13743895 / 2 ^ 37"

subsection \<open>The block driver (lines 181 to 199)\<close>

text \<open>
  \<^verbatim>\<open>applyIIR\<close> is declared in \<^verbatim>\<open>saf_utility_filters.h\<close> and is not part of this file: it
  is a parameter of the model. It receives the input block, the number of samples, the
  order, the numerator and denominator coefficient arrays and the state buffer, and
  gives the updated state buffer and the output block.
\<close>

type_synonym iir_routine =
  "real list \<Rightarrow> int \<Rightarrow> int \<Rightarrow> real list \<Rightarrow> real list \<Rightarrow> real list \<Rightarrow> real list \<times> real list"

definition applyDVF ::
  "iir_routine \<Rightarrow> real \<Rightarrow> real \<Rightarrow> real list \<Rightarrow> int \<Rightarrow> real \<Rightarrow> real list
     \<Rightarrow> error + (real list \<times> real list)" where
  "applyDVF applyIIR theta rho in_signal nSamples fs wz =
     (let b = [0, 0];
          a = [1, 0]
      in case interpHighShelfParams theta rho of
           Inl e \<Rightarrow> Inl e
         | Inr (iG0, iGInf, iFc) \<Rightarrow>
            (case calcIIRCoeffs iG0 iGInf iFc fs of
               (b0, b1, a1) \<Rightarrow>
                 Inr (applyIIR in_signal nSamples 2 (b[0 := b0, 1 := b1]) (a[1 := a1]) wz)))"

subsection \<open>Frontal to ipsilateral azimuth (lines 201 to 217)\<close>

definition convertFrontalDoAToIpsilateral :: "real \<Rightarrow> real \<times> real" where
  \<comment> \<open>the result is \<open>(ipsiDoaLR[0], ipsiDoaLR[1])\<close>\<close>
  "convertFrontalDoAToIpsilateral thetaFront =
     (let thetaL = \<bar>90 - thetaFront\<bar>;
          thetaL = (if thetaL > 180 then 360 - thetaL else thetaL)
      in (thetaL, 180 - thetaL))"

section \<open>Auxiliary facts\<close>

lemma numAz_table_value: "numAz_table = 76"
  by (simp add: numAz_table_def q23_def sizeof_float_def)

lemma INT_MAX_value: "INT_MAX = 2147483647"
  by (simp add: INT_MAX_def)

lemma INT_MIN_value: "INT_MIN = - 2147483648"
  by (simp add: INT_MIN_def)

lemma row_lengths:
  "length p11 = 19" "length p21 = 19" "length q11 = 19" "length q21 = 19"
  "length p12 = 19" "length p22 = 19" "length q12 = 19" "length q22 = 19"
  "length p13 = 19" "length p23 = 19" "length p33 = 19" "length q13 = 19" "length q23 = 19"
  by (simp_all add: p11_def p21_def q11_def q21_def p12_def p22_def q12_def q22_def
        p13_def p23_def p33_def q13_def q23_def)


subsection \<open>Table reads\<close>

lemma calcHighShelfParams_in_range:
  assumes "0 \<le> i" and "i \<le> 18"
  shows "calcHighShelfParams i rho =
     Inr ((p11 ! nat i * rho + p21 ! nat i) / (rho ^ 2 + q11 ! nat i * rho + q21 ! nat i),
          (p12 ! nat i * rho + p22 ! nat i) / (rho ^ 2 + q12 ! nat i * rho + q22 ! nat i),
          (p13 ! nat i * rho ^ 2 + p23 ! nat i * rho + p33 ! nat i)
             / (rho ^ 2 + q13 ! nat i * rho + q23 ! nat i) * sosDiv2PiA)"
  using assms by (simp add: calcHighShelfParams_def row_at_def row_lengths Let_def)

lemma calcHighShelfParams_out_of_range:
  assumes "i < 0 \<or> 18 < i"
  shows "calcHighShelfParams i rho = Inl (IndexOutOfBounds i)"
  using assms by (auto simp add: calcHighShelfParams_def row_at_def row_lengths)

subsection \<open>The index pair\<close>

lemma float_to_int_nonneg:
  assumes "0 \<le> x" and "x < 2 ^ 31"
  shows "float_to_int x = Inr \<lfloor>x\<rfloor>"
proof -
  have "0 \<le> \<lfloor>x\<rfloor>" using assms(1) by simp
  moreover have "\<lfloor>x\<rfloor> < 2 ^ 31" using assms(2) by (simp add: floor_less_iff)
  ultimately show ?thesis
    using assms(1) by (simp add: float_to_int_def INT_MIN_def INT_MAX_def Let_def)
qed

lemma interp_indices_nominal:
  assumes "0 \<le> x" and "x < 18"
  shows "interp_indices x = Inr (\<lfloor>x\<rfloor>, \<lfloor>x\<rfloor> + 1)"
proof -
  have hi: "\<lfloor>x\<rfloor> < 18" using assms(2) by (simp add: floor_less_iff)
  have "float_to_int x = Inr \<lfloor>x\<rfloor>"
    using assms by (intro float_to_int_nonneg) auto
  moreover have "\<lfloor>x\<rfloor> \<noteq> INT_MAX" "\<lfloor>x\<rfloor> + 1 \<noteq> numAz_table"
    unfolding INT_MAX_value numAz_table_value using hi by linarith+
  ultimately show ?thesis
    by (simp add: interp_indices_def Let_def)
qed

lemma interp_indices_small_negative:
  assumes "- 1 < x" and "x < 0"
  shows "interp_indices x = Inr (0, 1)"
proof -
  have "\<lceil>x\<rceil> = 0" using assms by (simp add: ceiling_eq_iff)
  then have "float_to_int x = Inr 0"
    using assms by (simp add: float_to_int_def Let_def INT_MIN_value INT_MAX_value)
  then show ?thesis
    by (simp add: interp_indices_def Let_def INT_MAX_value numAz_table_value)
qed

text \<open>
  One table step or more below 0, or at index 19 and above, the index pair is either
  not computed at all or has its lower index outside the table.
\<close>

lemma interp_indices_far:
  assumes "x \<le> - 1 \<or> 19 \<le> x"
  shows "(\<exists>e. interp_indices x = Inl e) \<or>
         (\<exists>lo up. interp_indices x = Inr (lo, up) \<and> (lo < 0 \<or> 18 < lo))"
proof -
  consider (neg) "x \<le> - 1" | (pos) "19 \<le> x" using assms by blast
  then show ?thesis
  proof cases
    case neg
    then have c: "\<lceil>x\<rceil> \<le> - 1" by (simp add: ceiling_le_iff)
    have nx: "\<not> 0 \<le> x" using neg by linarith
    show ?thesis
    proof (cases "INT_MIN \<le> \<lceil>x\<rceil>")
      case True
      then have "float_to_int x = Inr \<lceil>x\<rceil>"
        using c nx by (simp add: float_to_int_def Let_def INT_MAX_value)
      moreover have "\<lceil>x\<rceil> \<noteq> INT_MAX" "\<lceil>x\<rceil> + 1 \<noteq> numAz_table" "\<lceil>x\<rceil> < 0"
        unfolding INT_MAX_value numAz_table_value using c by linarith+
      ultimately show ?thesis by (simp add: interp_indices_def Let_def)
    next
      case False
      then have "float_to_int x = Inl CastOutOfRange"
        using nx by (simp add: float_to_int_def Let_def)
      then show ?thesis by (simp add: interp_indices_def)
    qed
  next
    case pos
    then have f: "19 \<le> \<lfloor>x\<rfloor>" by (simp add: le_floor_iff)
    have px: "0 \<le> x" using pos by linarith
    show ?thesis
    proof (cases "\<lfloor>x\<rfloor> < INT_MAX")
      case True
      then have "float_to_int x = Inr \<lfloor>x\<rfloor>"
        using f px unfolding INT_MAX_value
        by (simp add: float_to_int_def Let_def INT_MIN_value INT_MAX_value)
      moreover have "\<lfloor>x\<rfloor> \<noteq> INT_MAX" "18 < \<lfloor>x\<rfloor>"
          "\<lfloor>x\<rfloor> + 1 = numAz_table \<Longrightarrow> 18 < \<lfloor>x\<rfloor> - 1"
        unfolding numAz_table_value using True f by linarith+
      ultimately show ?thesis by (auto simp add: interp_indices_def Let_def)
    next
      case False
      then have "float_to_int x = Inl CastOutOfRange \<or> float_to_int x = Inr INT_MAX"
        using px by (auto simp add: float_to_int_def Let_def)
      then show ?thesis by (auto simp add: interp_indices_def)
    qed
  qed
qed

subsection \<open>Errors of the interpolator\<close>

lemma interpHighShelfParams_index_error:
  assumes "interp_indices (theta / 10) = Inl e"
  shows "interpHighShelfParams theta rho = Inl e"
  using assms by (simp add: interpHighShelfParams_def Let_def)

lemma interpHighShelfParams_lower_out_of_range:
  assumes "interp_indices (theta / 10) = Inr (lo, up)" and "lo < 0 \<or> 18 < lo"
  shows "interpHighShelfParams theta rho = Inl (IndexOutOfBounds lo)"
  using assms by (simp add: interpHighShelfParams_def Let_def calcHighShelfParams_out_of_range)

text \<open>
  From 180 up to 190 the pair is (18, 19) and the second call reads past the tables.
\<close>

lemma interpHighShelfParams_180_to_190:
  assumes "180 \<le> theta" and "theta < 190"
  shows "interp_indices (theta / 10) = Inr (18, 19)"
    and "interpHighShelfParams theta rho = Inl (IndexOutOfBounds 19)"
proof -
  have fl: "\<lfloor>theta / 10\<rfloor> = 18" using assms by (simp add: floor_eq_iff)
  have "float_to_int (theta / 10) = Inr \<lfloor>theta / 10\<rfloor>"
    using assms by (intro float_to_int_nonneg) auto
  then show idx: "interp_indices (theta / 10) = Inr (18, 19)"
    by (simp add: fl interp_indices_def Let_def INT_MAX_value numAz_table_value)
  obtain s1 where s1: "calcHighShelfParams 18 rho = Inr s1"
    using calcHighShelfParams_in_range[of 18 rho] by simp
  show "interpHighShelfParams theta rho = Inl (IndexOutOfBounds 19)"
    by (cases s1)
       (simp add: interpHighShelfParams_def Let_def idx s1 calcHighShelfParams_out_of_range)
qed


subsection \<open>Reads past the rows that yield a value\<close>

lemma calcHighShelfParams_mem_in_range:
  assumes "0 \<le> i" and "i \<le> 18"
  shows "calcHighShelfParams i rho = Inr (calcHighShelfParams_mem stray i rho)"
  using assms
  by (simp add: calcHighShelfParams_in_range calcHighShelfParams_mem_def row_read_def
        row_lengths Let_def)

text \<open>Where every read is in range the two models return the same triple.\<close>

lemma interpHighShelfParams_mem_agrees:
  assumes "interpHighShelfParams theta rho = Inr s"
  shows "interpHighShelfParams_mem stray theta rho = Inr s"
proof -
  obtain lo up where idx: "interp_indices (theta / 10) = Inr (lo, up)"
    using assms by (auto simp add: interpHighShelfParams_def Let_def split: sum.splits)
  have lo: "0 \<le> lo \<and> lo \<le> 18"
  proof (rule ccontr)
    assume "\<not> (0 \<le> lo \<and> lo \<le> 18)"
    then have "calcHighShelfParams lo rho = Inl (IndexOutOfBounds lo)"
      by (intro calcHighShelfParams_out_of_range) auto
    then show False using assms idx by (simp add: interpHighShelfParams_def Let_def)
  qed
  have up: "0 \<le> up \<and> up \<le> 18"
  proof (rule ccontr)
    assume "\<not> (0 \<le> up \<and> up \<le> 18)"
    then have "calcHighShelfParams up rho = Inl (IndexOutOfBounds up)"
      by (intro calcHighShelfParams_out_of_range) auto
    then show False using assms idx
      by (auto simp add: interpHighShelfParams_def Let_def split: sum.splits)
  qed
  have l: "calcHighShelfParams lo rho = Inr (calcHighShelfParams_mem stray lo rho)"
    using lo by (simp add: calcHighShelfParams_mem_in_range)
  have u: "calcHighShelfParams up rho = Inr (calcHighShelfParams_mem stray up rho)"
    using up by (simp add: calcHighShelfParams_mem_in_range)
  show ?thesis
    using assms unfolding interpHighShelfParams_def interpHighShelfParams_mem_def
    by (simp add: Let_def idx l u split: prod.splits)
qed


subsection \<open>Rounding to single precision\<close>

lemma rne_of_int: "rne (of_int z) = z"
  by (simp add: rne_def)

lemma rne_cases: "rne r = \<lfloor>r\<rfloor> \<or> rne r = \<lfloor>r\<rfloor> + 1"
  by (simp add: rne_def Let_def)

lemma rne_mono:
  assumes "r \<le> s"
  shows "rne r \<le> rne s"
proof (cases "\<lfloor>r\<rfloor> = \<lfloor>s\<rfloor>")
  case True
  then show ?thesis using assms by (auto simp add: rne_def Let_def)
next
  case False
  then have "\<lfloor>r\<rfloor> + 1 \<le> \<lfloor>s\<rfloor>" using floor_mono[OF assms] by linarith
  moreover have "rne r \<le> \<lfloor>r\<rfloor> + 1" using rne_cases[of r] by linarith
  moreover have "\<lfloor>s\<rfloor> \<le> rne s" using rne_cases[of s] by linarith
  ultimately show ?thesis by linarith
qed

lemma rne_near_int:
  assumes "\<bar>r - of_int z\<bar> < 1 / 2"
  shows "rne r = z"
proof (cases "of_int z \<le> r")
  case True
  then have "\<lfloor>r\<rfloor> = z" using assms by (intro floor_unique) auto
  then show ?thesis using assms True by (simp add: rne_def Let_def)
next
  case False
  then have f: "\<lfloor>r\<rfloor> = z - 1" using assms by (intro floor_unique) auto
  have "1 / 2 < r - of_int (z - 1)" using assms False by auto
  then show ?thesis using f by (simp add: rne_def Let_def)
qed

lemma rne_down:
  assumes "of_int f \<le> r" and "r \<le> of_int f + 1 / 2" and "even f"
  shows "rne r = f"
proof -
  have "\<lfloor>r\<rfloor> = f" using assms(1,2) by (intro floor_unique) auto
  then show ?thesis using assms by (auto simp add: rne_def Let_def)
qed

lemma rne_up:
  assumes "of_int f + 1 / 2 \<le> r" and "r < of_int f + 1" and "odd f"
  shows "rne r = f + 1"
proof -
  have "\<lfloor>r\<rfloor> = f" using assms(1,2) by (intro floor_unique) auto
  then show ?thesis using assms by (auto simp add: rne_def Let_def)
qed

lemma f32_exp_upper:
  assumes "0 < a"
  shows "a < 2 powr of_int (f32_exp a + 1)"
proof -
  have "a < 2 powr of_int (\<lfloor>log 2 a\<rfloor> + 1)"
    using floor_log_eq_powr_iff[of a 2 "\<lfloor>log 2 a\<rfloor>"] assms by simp
  also have "\<dots> \<le> 2 powr of_int (f32_exp a + 1)"
    by (intro powr_mono) (simp_all add: f32_exp_def)
  finally show ?thesis .
qed

lemma f32_exp_lower:
  assumes "0 < a" and "- 126 < f32_exp a"
  shows "2 powr of_int (f32_exp a) \<le> a"
proof -
  have "f32_exp a = \<lfloor>log 2 a\<rfloor>" using assms(2) by (simp add: f32_exp_def max_def split: if_splits)
  then show ?thesis
    using floor_log_eq_powr_iff[of a 2 "\<lfloor>log 2 a\<rfloor>"] assms(1) by simp
qed

lemma f32_exp_mono:
  assumes "0 < a" and "a \<le> b"
  shows "f32_exp a \<le> f32_exp b"
proof -
  have "log 2 a \<le> log 2 b" using assms by simp
  then have "\<lfloor>log 2 a\<rfloor> \<le> \<lfloor>log 2 b\<rfloor>" by (rule floor_mono)
  then show ?thesis by (simp add: f32_exp_def)
qed

lemma f32_exp_ge: "- 126 \<le> f32_exp a"
  by (simp add: f32_exp_def)

lemma round_mag_pos_eq:
  assumes "0 < a"
  shows "round_mag a = of_int (rne (a / 2 powr of_int (f32_exp a - 23))) * 2 powr of_int (f32_exp a - 23)"
  using assms by (simp add: round_mag_def Let_def)

lemma pow2_split: "(2::real) powr of_int (e + 1) = 2 ^ 24 * 2 powr of_int (e - 23)"
proof -
  have e: "real_of_int (e + 1) = 24 + real_of_int (e - 23)" by simp
  show ?thesis unfolding e powr_add by simp
qed

lemma pow2_split': "(2::real) powr of_int e = 2 ^ 23 * 2 powr of_int (e - 23)"
proof -
  have e: "real_of_int e = 23 + real_of_int (e - 23)" by simp
  have "(2::real) powr of_int e = 2 powr (23 + real_of_int (e - 23))" using e by simp
  then show ?thesis unfolding powr_add by simp
qed

lemma round_mag_upper:
  assumes "0 < a"
  shows "round_mag a \<le> 2 powr of_int (f32_exp a + 1)"
proof -
  define u :: real where "u = 2 powr of_int (f32_exp a - 23)"
  have u: "0 < u" by (simp add: u_def)
  have "a < 2 ^ 24 * u" using f32_exp_upper[OF assms] unfolding pow2_split u_def .
  then have "a / u \<le> of_int (2 ^ 24)" using u by (simp add: field_simps)
  then have "rne (a / u) \<le> rne (of_int (2 ^ 24))" by (rule rne_mono)
  then have "rne (a / u) \<le> 2 ^ 24" by (simp only: rne_of_int)
  then have "(of_int (rne (a / u)) :: real) \<le> 2 ^ 24" by (metis of_int_le_iff of_int_numeral of_int_power)
  then have "of_int (rne (a / u)) * u \<le> 2 ^ 24 * u" using u by simp
  then show ?thesis unfolding round_mag_pos_eq[OF assms] pow2_split u_def .
qed

lemma round_mag_lower:
  assumes "0 < a" and "- 126 < f32_exp a"
  shows "2 powr of_int (f32_exp a) \<le> round_mag a"
proof -
  define u :: real where "u = 2 powr of_int (f32_exp a - 23)"
  have u: "0 < u" by (simp add: u_def)
  have "2 ^ 23 * u \<le> a" using f32_exp_lower[OF assms] unfolding u_def by (subst (asm) pow2_split')
  then have "of_int (2 ^ 23) \<le> a / u" using u by (simp add: field_simps)
  then have "rne (of_int (2 ^ 23)) \<le> rne (a / u)" by (rule rne_mono)
  then have "2 ^ 23 \<le> rne (a / u)" by (simp only: rne_of_int)
  then have "(2 ^ 23 :: real) \<le> of_int (rne (a / u))" by (metis of_int_le_iff of_int_numeral of_int_power)
  then have "2 ^ 23 * u \<le> of_int (rne (a / u)) * u" using u by simp
  then show ?thesis unfolding round_mag_pos_eq[OF assms(1)] u_def by (subst pow2_split')
qed

lemma round_mag_nonneg:
  assumes "0 \<le> a"
  shows "0 \<le> round_mag a"
proof (cases "a = 0")
  case True
  then show ?thesis by (simp add: round_mag_def)
next
  case False
  then have a: "0 < a" using assms by simp
  define u :: real where "u = 2 powr of_int (f32_exp a - 23)"
  have u: "0 < u" by (simp add: u_def)
  have "rne (of_int 0) \<le> rne (a / u)" using a u by (intro rne_mono) simp
  then have "0 \<le> rne (a / u)" by (simp only: rne_of_int)
  then show ?thesis using a u by (simp add: round_mag_pos_eq u_def)
qed

lemma round_mag_mono:
  assumes "0 \<le> a" and "a \<le> b"
  shows "round_mag a \<le> round_mag b"
proof (cases "a = 0")
  case True
  then show ?thesis using round_mag_nonneg[of b] assms by (simp add: round_mag_def)
next
  case False
  then have a: "0 < a" and b: "0 < b" using assms by simp_all
  have le: "f32_exp a \<le> f32_exp b" using a assms(2) by (rule f32_exp_mono)
  show ?thesis
  proof (cases "f32_exp a = f32_exp b")
    case True
    define u :: real where "u = 2 powr of_int (f32_exp b - 23)"
    have u: "0 < u" by (simp add: u_def)
    have "a / u \<le> b / u" using assms(2) u by (simp add: divide_right_mono)
    then have "rne (a / u) \<le> rne (b / u)" by (rule rne_mono)
    then have "of_int (rne (a / u)) * u \<le> of_int (rne (b / u)) * u" using u by simp
    then show ?thesis using a b True by (simp add: round_mag_pos_eq u_def)
  next
    case False
    then have lt: "f32_exp a + 1 \<le> f32_exp b" using le by linarith
    have "- 126 < f32_exp b" using lt f32_exp_ge[of a] by linarith
    then have "2 powr of_int (f32_exp b) \<le> round_mag b" using b by (intro round_mag_lower)
    moreover have "round_mag a \<le> 2 powr of_int (f32_exp a + 1)" using a by (rule round_mag_upper)
    moreover have "(2::real) powr of_int (f32_exp a + 1) \<le> 2 powr of_int (f32_exp b)"
      using lt by (intro powr_mono) simp_all
    ultimately show ?thesis by linarith
  qed
qed

lemma f32_exp_pow2: "f32_exp (2 powr of_int k) = max k (- 126)"
  by (simp add: f32_exp_def)

lemma round_mag_pow2:
  assumes "- 149 \<le> k"
  shows "round_mag (2 powr of_int k) = 2 powr of_int k"
proof -
  define j where "j = k - (max k (- 126) - 23)"
  have j: "0 \<le> j" using assms by (simp add: j_def max_def)
  have q: "(2::real) powr of_int k / 2 powr of_int (max k (- 126) - 23) = 2 powr of_int j"
    unfolding j_def by (simp add: powr_diff)
  have i: "(2::real) powr of_int j = of_int (2 ^ nat j)"
    using j by (simp add: powr_real_of_int)
  have "round_mag (2 powr of_int k)
          = of_int (rne (2 powr of_int j)) * 2 powr of_int (max k (- 126) - 23)"
    by (simp add: round_mag_def f32_exp_pow2 q Let_def del: of_int_diff)
  also have "\<dots> = 2 powr of_int j * 2 powr of_int (max k (- 126) - 23)"
    by (simp only: i rne_of_int)
  also have "\<dots> = 2 powr of_int k"
    unfolding j_def by (simp add: powr_add[symmetric])
  finally show ?thesis .
qed

lemma round_mag_0: "round_mag 0 = 0"
  by (simp add: round_mag_def)

lemma round_mag_1: "round_mag 1 = 1"
  using round_mag_pow2[of 0] by simp

lemma round_f32_Some:
  assumes "round_f32 x = Some r"
  shows "\<bar>r\<bar> = round_mag \<bar>x\<bar>" and "round_mag \<bar>x\<bar> < 2 ^ 128" and "r = sgn x * round_mag \<bar>x\<bar>"
proof -
  have n: "0 \<le> round_mag \<bar>x\<bar>" by (rule round_mag_nonneg) simp
  show lt: "round_mag \<bar>x\<bar> < 2 ^ 128"
    using assms by (simp add: round_f32_def Let_def split: if_splits)
  show r: "r = sgn x * round_mag \<bar>x\<bar>"
    using assms by (auto simp add: round_f32_def Let_def split: if_splits)
  show "\<bar>r\<bar> = round_mag \<bar>x\<bar>"
  proof (cases "x = 0")
    case True
    then show ?thesis using r by (simp add: round_mag_0)
  next
    case False
    then show ?thesis using r n by (simp add: abs_mult abs_sgn_eq)
  qed
qed

lemma round_f32_finite:
  assumes "round_mag \<bar>x\<bar> < 2 ^ 128"
  shows "round_f32 x = Some (sgn x * round_mag \<bar>x\<bar>)"
  using assms by (simp add: round_f32_def Let_def)

lemma round_f32_nonneg:
  assumes "round_f32 x = Some r" and "0 \<le> x"
  shows "0 \<le> r" and "r = round_mag x"
proof -
  have n: "0 \<le> round_mag \<bar>x\<bar>" by (rule round_mag_nonneg) simp
  show "r = round_mag x"
    using round_f32_Some(3)[OF assms(1)] assms(2) by (cases "x = 0") (simp_all add: round_mag_0)
  then show "0 \<le> r" using n assms(2) by simp
qed

lemma round_f32_0: "round_f32 0 = Some 0"
  by (simp add: round_f32_def round_mag_0)

lemma round_f32_1: "round_f32 1 = Some 1"
  by (simp add: round_f32_def round_mag_1)

lemma round_f32_m1: "round_f32 (- 1) = Some (- 1)"
  by (simp add: round_f32_def round_mag_1)

lemma round_f32_between:
  assumes "2 powr of_int lo \<le> x" and "x \<le> 2 powr of_int hi" and "- 149 \<le> lo" and "hi \<le> 127"
  shows "\<exists>r. round_f32 x = Some r \<and> 2 powr of_int lo \<le> r \<and> r \<le> 2 powr of_int hi"
proof -
  have x: "0 < x" using assms(1) powr_gt_zero[of 2 "of_int lo"] by linarith
  have lohi: "lo \<le> hi"
  proof -
    have "(2::real) powr of_int lo \<le> 2 powr of_int hi" using assms(1,2) by linarith
    then show ?thesis by simp
  qed
  have l: "2 powr of_int lo \<le> round_mag x"
    using round_mag_mono[of "2 powr of_int lo" x] round_mag_pow2[OF assms(3)] assms(1) by simp
  have h: "round_mag x \<le> 2 powr of_int hi"
    using round_mag_mono[of x "2 powr of_int hi"] round_mag_pow2[of hi] assms(2,3) x lohi by simp
  have "(2::real) powr of_int hi \<le> 2 powr of_int (127::int)"
    using assms(4) by (intro powr_mono) simp_all
  also have "\<dots> < 2 ^ 128" by simp
  finally have "round_mag \<bar>x\<bar> < 2 ^ 128" using h x by simp
  then have "round_f32 x = Some (sgn x * round_mag \<bar>x\<bar>)" by (rule round_f32_finite)
  then show ?thesis using x l h by simp
qed

lemma round_f32_upto:
  assumes "0 \<le> x" and "x \<le> 2 powr of_int hi" and "- 149 \<le> hi" and "hi \<le> 127"
  shows "\<exists>r. round_f32 x = Some r \<and> 0 \<le> r \<and> r \<le> 2 powr of_int hi"
proof -
  have h: "round_mag x \<le> 2 powr of_int hi"
    using round_mag_mono[of x "2 powr of_int hi"] round_mag_pow2[of hi] assms(1,2,3) by simp
  have "(2::real) powr of_int hi \<le> 2 powr of_int (127::int)"
    using assms(4) by (intro powr_mono) simp_all
  also have "\<dots> < 2 ^ 128" by simp
  finally have "round_mag \<bar>x\<bar> < 2 ^ 128" using h assms(1) by simp
  then have "round_f32 x = Some (sgn x * round_mag \<bar>x\<bar>)" by (rule round_f32_finite)
  moreover have "0 \<le> sgn x * round_mag \<bar>x\<bar>" "sgn x * round_mag \<bar>x\<bar> \<le> 2 powr of_int hi"
    using assms(1) h round_mag_nonneg[of x] by (cases "x = 0"; simp add: round_mag_0)+
  ultimately show ?thesis by simp
qed

text \<open>Rounding next to 1.\<close>

lemma f32_exp_eq:
  assumes "2 powr of_int k \<le> a" and "a < 2 powr of_int (k + 1)" and "- 126 \<le> k"
  shows "f32_exp a = k"
proof -
  have "0 < a" using assms(1) powr_gt_zero[of 2 "of_int k"] by linarith
  then have "\<lfloor>log 2 a\<rfloor> = k" using assms(1,2) by (simp add: floor_log_eq_powr_iff)
  then show ?thesis using assms(3) by (simp add: f32_exp_def)
qed

lemma round_mag_above_1:
  assumes "0 \<le> t" and "t \<le> 1 / 2 ^ 24"
  shows "round_mag (1 + t) = 1"
proof -
  have t1: "t < 1"
  proof -
    have "(1::real) / 2 ^ 24 < 1" by simp
    then show ?thesis using assms(2) by linarith
  qed
  have e: "f32_exp (1 + t) = 0"
  proof (rule f32_exp_eq)
    show "2 powr real_of_int 0 \<le> 1 + t" using assms(1) by simp
    show "1 + t < 2 powr real_of_int (0 + 1)" using t1 by simp
    show "- 126 \<le> (0::int)" by simp
  qed
  have u: "(2::real) powr of_int (0 - 23) = 1 / 2 ^ 23"
    by (simp add: powr_minus_divide)
  have q: "(1 + t) / (1 / 2 ^ 23) = 2 ^ 23 + t * 2 ^ 23" by (simp add: algebra_simps)
  have d: "0 \<le> t * 2 ^ 23" "t * 2 ^ 23 \<le> 1 / 2" using assms by simp_all
  have m: "rne ((1 + t) / (1 / 2 ^ 23)) = 2 ^ 23"
    unfolding q using d by (intro rne_down) simp_all
  have pos: "0 < 1 + t" using assms(1) by simp
  have "round_mag (1 + t) = of_int (rne ((1 + t) / (1 / 2 ^ 23))) * (1 / 2 ^ 23)"
    unfolding round_mag_pos_eq[OF pos] e u ..
  also have "\<dots> = 1" unfolding m by simp
  finally show ?thesis .
qed

lemma round_mag_below_1:
  assumes "0 \<le> t" and "t \<le> 1 / 2 ^ 25"
  shows "round_mag (1 - t) = 1"
proof (cases "t = 0")
  case True
  then show ?thesis by (simp add: round_mag_1)
next
  case False
  then have t: "0 < t" using assms(1) by simp
  have t2: "t < 1 / 2"
  proof -
    have "(1::real) / 2 ^ 25 < 1 / 2" by simp
    then show ?thesis using assms(2) by linarith
  qed
  have e: "f32_exp (1 - t) = - 1"
  proof (rule f32_exp_eq)
    show "2 powr real_of_int (- 1) \<le> 1 - t" using t2 by (simp add: powr_minus_divide)
    show "1 - t < 2 powr real_of_int (- 1 + 1)" using t by simp
    show "- 126 \<le> (- 1::int)" by simp
  qed
  have u: "(2::real) powr of_int (- 1 - 23) = 1 / 2 ^ 24"
    by (simp add: powr_minus_divide)
  have q: "(1 - t) / (1 / 2 ^ 24) = 2 ^ 24 - t * 2 ^ 24" by (simp add: algebra_simps)
  have d: "0 < t * 2 ^ 24" "t * 2 ^ 24 \<le> 1 / 2" using assms t by simp_all
  have "rne ((1 - t) / (1 / 2 ^ 24)) = (2 ^ 24 - 1) + 1"
    unfolding q using d by (intro rne_up) simp_all
  then have m: "rne ((1 - t) / (1 / 2 ^ 24)) = 2 ^ 24" by simp
  have pos: "0 < 1 - t" using t2 by simp
  have "round_mag (1 - t) = of_int (rne ((1 - t) / (1 / 2 ^ 24))) * (1 / 2 ^ 24)"
    unfolding round_mag_pos_eq[OF pos] e u ..
  also have "\<dots> = 1" unfolding m by simp
  finally show ?thesis .
qed

text \<open>The largest finite number.\<close>

lemma round_f32_le_FLT_MAX:
  assumes "round_f32 x = Some r"
  shows "\<bar>r\<bar> \<le> FLT_MAX"
proof (cases "x = 0")
  case True
  then show ?thesis using assms by (simp add: round_f32_0 FLT_MAX_def)
next
  case False
  define a where "a = \<bar>x\<bar>"
  have a: "0 < a" using False by (simp add: a_def)
  have r: "\<bar>r\<bar> = round_mag a" and lt: "round_mag a < 2 ^ 128"
    using round_f32_Some[OF assms] by (simp_all add: a_def)
  show ?thesis
  proof (cases "f32_exp a \<le> 126")
    case True
    have "round_mag a \<le> 2 powr of_int (f32_exp a + 1)" using a by (rule round_mag_upper)
    also have "\<dots> \<le> 2 powr of_int (127::int)" using True by (intro powr_mono) simp_all
    also have "\<dots> \<le> FLT_MAX" by (simp add: FLT_MAX_def)
    finally show ?thesis using r by simp
  next
    case False
    then have g: "127 \<le> f32_exp a" by linarith
    then have "2 powr of_int (f32_exp a) \<le> round_mag a" using a by (intro round_mag_lower) simp_all
    moreover have "(2::real) ^ 128 = 2 powr of_int (128::int)" by simp
    ultimately have "(2::real) powr of_int (f32_exp a) < 2 powr of_int (128::int)"
      using lt by linarith
    then have "real_of_int (f32_exp a) < real_of_int 128" by (rule powr_less_cancel) simp
    then have "f32_exp a < 128" by linarith
    then have e: "f32_exp a = 127" using g by linarith
    define m where "m = rne (a / 2 ^ 104)"
    have u: "(2::real) powr of_int (127 - 23 :: int) = 2 ^ 104" by simp
    have rm: "round_mag a = of_int m * 2 ^ 104"
      unfolding round_mag_pos_eq[OF a] e u m_def ..
    have "of_int m * (2 ^ 104 :: real) < 2 ^ 24 * 2 ^ 104" using lt rm by simp
    then have "(of_int m :: real) < 2 ^ 24" by (simp only: mult_less_cancel_right_pos zero_less_power zero_less_numeral)
    then have "m < 2 ^ 24" by simp
    then have "m \<le> 2 ^ 24 - 1" by simp
    then have "(of_int m :: real) \<le> of_int (2 ^ 24 - 1)" by (simp only: of_int_le_iff)
    then have "of_int m * (2 ^ 104 :: real) \<le> of_int (2 ^ 24 - 1) * 2 ^ 104"
      by (simp only: mult_le_cancel_right_pos zero_less_power zero_less_numeral)
    also have "\<dots> = FLT_MAX" by (simp add: FLT_MAX_def)
    finally show ?thesis using r rm by simp
  qed
qed

lemma round_mag_FLT_MAX_plus_1: "round_mag (FLT_MAX + 1) = FLT_MAX"
proof -
  define a where "a = FLT_MAX + 1"
  have a: "0 < a" by (simp add: a_def FLT_MAX_def)
  have e: "f32_exp a = 127"
  proof (rule f32_exp_eq)
    show "2 powr real_of_int 127 \<le> a" by (simp add: a_def FLT_MAX_def)
    show "a < 2 powr real_of_int (127 + 1)" by (simp add: a_def FLT_MAX_def)
    show "- 126 \<le> (127::int)" by simp
  qed
  have u: "(2::real) powr of_int (127 - 23 :: int) = 2 ^ 104" by simp
  have q: "a / 2 ^ 104 = of_int (2 ^ 24 - 1) + 1 / 2 ^ 104"
    by (simp add: a_def FLT_MAX_def field_simps)
  have m: "rne (a / 2 ^ 104) = 2 ^ 24 - 1"
    unfolding q by (rule rne_near_int) simp
  have "round_mag a = of_int (rne (a / 2 ^ 104)) * 2 ^ 104"
    unfolding round_mag_pos_eq[OF a] e u ..
  also have "\<dots> = FLT_MAX" unfolding m by (simp add: FLT_MAX_def)
  finally show ?thesis unfolding a_def .
qed

lemma fadd_Some: "fadd (Some x) (Some y) = round_f32 (x + y)"
  by (simp add: fadd_def)

lemma fsub_Some: "fsub (Some x) (Some y) = round_f32 (x - y)"
  by (simp add: fsub_def)

lemma fmul_Some: "fmul (Some x) (Some y) = round_f32 (x * y)"
  by (simp add: fmul_def)

lemma fdiv_Some: "y \<noteq> 0 \<Longrightarrow> fdiv (Some x) (Some y) = round_f32 (x / y)"
  by (simp add: fdiv_def)

lemma abs_sgn_mult_le:
  fixes y m :: real
  assumes "0 \<le> m"
  shows "\<bar>sgn y * m\<bar> \<le> m"
  using assms by (cases "y = 0") (simp_all add: abs_mult abs_sgn_eq)

lemma a_c_bounded:
  assumes "0 \<le> x" and "round_f32 z = Some x" and "0 \<le> z"
  shows "\<exists>a. fdiv (fsub (Some x) (Some 1)) (fadd (Some x) (Some 1)) = Some a \<and> - 1 \<le> a \<and> a \<le> 1"
proof -
  have xm: "x \<le> FLT_MAX" using round_f32_le_FLT_MAX[OF assms(2)] assms(1) by simp
  have "round_mag (x + 1) \<le> round_mag (FLT_MAX + 1)"
    using assms(1) xm by (intro round_mag_mono) simp_all
  then have dlt: "round_mag (x + 1) \<le> FLT_MAX" by (simp add: round_mag_FLT_MAX_plus_1)
  then have dlt': "round_mag \<bar>x + 1\<bar> < 2 ^ 128" using assms(1) by (simp add: FLT_MAX_def)
  define d where "d = round_mag (x + 1)"
  have d: "round_f32 (x + 1) = Some d"
    using round_f32_finite[OF dlt'] assms(1) by (simp add: d_def)
  have d1: "1 \<le> d"
    using round_mag_mono[of 1 "x + 1"] assms(1) by (simp add: d_def round_mag_1)
  have nle: "round_mag \<bar>x - 1\<bar> \<le> d"
    unfolding d_def using assms(1) by (intro round_mag_mono) simp_all
  then have nlt: "round_mag \<bar>x - 1\<bar> < 2 ^ 128" using dlt by (simp add: d_def FLT_MAX_def)
  define n where "n = sgn (x - 1) * round_mag \<bar>x - 1\<bar>"
  have n: "round_f32 (x - 1) = Some n"
    unfolding n_def using nlt by (rule round_f32_finite)
  have nabs: "\<bar>n\<bar> \<le> d"
    unfolding n_def using abs_sgn_mult_le[OF round_mag_nonneg[of "\<bar>x - 1\<bar>"], of "x - 1"] nle
    by simp
  have q: "\<bar>n / d\<bar> \<le> 1" using nabs d1 by (simp add: field_simps)
  have "round_mag \<bar>n / d\<bar> \<le> round_mag 1" using q by (intro round_mag_mono) simp_all
  then have q1: "round_mag \<bar>n / d\<bar> \<le> 1" by (simp add: round_mag_1)
  then have alt: "round_mag \<bar>n / d\<bar> < 2 ^ 128" by simp
  define a where "a = sgn (n / d) * round_mag \<bar>n / d\<bar>"
  have a: "round_f32 (n / d) = Some a"
    unfolding a_def using alt by (rule round_f32_finite)
  have "\<bar>a\<bar> \<le> round_mag \<bar>n / d\<bar>"
    unfolding a_def by (rule abs_sgn_mult_le) (rule round_mag_nonneg, simp)
  then have "\<bar>a\<bar> \<le> 1" using q1 by simp
  then have "- 1 \<le> a \<and> a \<le> 1" by (simp add: abs_le_iff)
  moreover have "fdiv (fsub (Some x) (Some 1)) (fadd (Some x) (Some 1)) = Some a"
    using d1 by (simp add: fdiv_def fsub_def fadd_def d n a)
  ultimately show ?thesis by blast
qed

lemma db2mag_f32_nonneg:
  assumes "db2mag_f32 dB = Some v"
  shows "0 \<le> v"
proof -
  obtain y where "round_f32 (10 powr y) = Some v"
    using assms by (auto simp add: db2mag_f32_def split: option.splits)
  then show ?thesis by (rule round_f32_nonneg(1)) simp
qed

lemma tanf_nonneg:
  assumes "tanf (Some t) = Some v" and "0 < t" and "t < pi / 2"
  shows "0 \<le> v"
proof -
  have "round_f32 (tan t) = Some v"
    using assms(1) by (simp add: tanf_def split: if_splits)
  moreover have "0 \<le> tan t" using tan_gt_zero[OF assms(2,3)] by simp
  ultimately show ?thesis by (rule round_f32_nonneg(1))
qed

lemma tan_le_double:
  fixes t :: real
  assumes "0 \<le> t" and "t \<le> 1 / 2"
  shows "0 \<le> tan t" and "tan t \<le> 2 * t" and "cos t \<noteq> 0"
proof -
  have p: "1 / 2 < pi / 3" using pi_ge_two by simp
  have "cos (pi / 3) \<le> cos t"
    using assms p by (intro cos_monotone_0_pi_le) simp_all
  then have c: "1 / 2 \<le> cos t" by (simp add: cos_60)
  then show "cos t \<noteq> 0" by simp
  have s: "sin t \<le> t" using assms(1) by (rule sin_x_le_x)
  have s0: "0 \<le> sin t" using assms p pi_ge_two by (intro sin_ge_zero) simp_all
  show "0 \<le> tan t" using s0 c by (simp add: tan_def)
  have "sin t \<le> 2 * t * cos t"
  proof -
    have "t * 1 \<le> t * (2 * cos t)" using c assms(1) by (intro mult_left_mono) simp_all
    then show ?thesis using s by (simp add: algebra_simps)
  qed
  then show "tan t \<le> 2 * t" using c by (simp add: tan_def field_simps)
qed

lemma headDim_f32_range: "\<exists>h. headDim_f32 = Some h \<and> 1 \<le> h \<and> h \<le> 4"
proof -
  obtain a where a: "round_f32 0.0875 = Some a" "1 / 16 \<le> a" "a \<le> 1 / 8"
    using round_f32_between[of "- 4" "0.0875" "- 3"] by (auto simp add: powr_minus_divide)
  obtain b where b: "round_f32 0.09096 = Some b" "1 / 16 \<le> b" "b \<le> 1 / 8"
    using round_f32_between[of "- 4" "0.09096" "- 3"] by (auto simp add: powr_minus_divide)
  have "a = round_mag 0.0875" using a(1) by (rule round_f32_nonneg(2)) simp
  moreover have "b = round_mag 0.09096" using b(1) by (rule round_f32_nonneg(2)) simp
  moreover have "round_mag 0.0875 \<le> round_mag 0.09096" by (intro round_mag_mono) simp_all
  ultimately have ab: "a \<le> b" by simp
  have b0: "0 < b" using b(2) by simp
  have q1: "a / b \<le> 1" using ab b0 by simp
  have q2: "1 / 2 \<le> a / b"
  proof -
    have "b \<le> 2 * a" using a(2) b(3) by simp
    then show ?thesis using b0 by (simp add: field_simps)
  qed
  obtain q where q: "round_f32 (a / b) = Some q" "1 / 2 \<le> q" "q \<le> 1"
    using round_f32_between[of "- 1" "a / b" 0] q1 q2 by (auto simp add: powr_minus_divide)
  obtain p where p: "round_f32 pi = Some p" "2 \<le> p" "p \<le> 4"
    using round_f32_between[of 1 pi 2] pi_ge_two pi_less_4 by auto
  have "1 \<le> p * q"
  proof -
    have "2 * (1 / 2) \<le> p * q" using p(2) q(2) by (intro mult_mono) simp_all
    then show ?thesis by simp
  qed
  moreover have "p * q \<le> 4"
  proof -
    have "p * q \<le> 4 * 1" using p(2,3) q(2,3) by (intro mult_mono) simp_all
    then show ?thesis by simp
  qed
  ultimately obtain h where h: "round_f32 (p * q) = Some h" "1 \<le> h" "h \<le> 4"
    using round_f32_between[of 0 "p * q" 2] by auto
  have A: "a_0_f32 = Some a" by (simp only: a_0_f32_def a(1))
  have B: "a_head_f32 = Some b" by (simp only: a_head_f32_def b(1))
  have "b \<noteq> 0" using b0 by simp
  then have Q: "fdiv a_0_f32 a_head_f32 = Some q" by (simp add: A B fdiv_Some q(1))
  have P: "SAF_PI_f32 = Some p" by (simp only: SAF_PI_f32_def p(1))
  have "headDim_f32 = Some h" by (simp only: headDim_f32_def P Q fmul_Some h(1))
  then show ?thesis using h(2,3) by blast
qed

lemma tanArg_f32_tiny:
  "\<exists>t. tanArg_f32 fc_1e4 48000 = Some t \<and> 1 / 2 ^ 30 \<le> t \<and> t \<le> 1 / 2 ^ 26"
proof -
  obtain h where h: "headDim_f32 = Some h" "1 \<le> h" "h \<le> 4"
    using headDim_f32_range by blast
  have "1 / 2 ^ 16 \<le> h / 48000" "h / 48000 \<le> 1 / 2 ^ 13" using h(2,3) by simp_all
  then obtain w where w: "round_f32 (h / 48000) = Some w" "1 / 2 ^ 16 \<le> w" "w \<le> 1 / 2 ^ 13"
    using round_f32_between[of "- 16" "h / 48000" "- 13"] by (auto simp add: powr_minus_divide)
  have f: "1 / 2 ^ 14 \<le> fc_1e4" "fc_1e4 \<le> 1 / 2 ^ 13" by (simp_all add: fc_1e4_def)
  have "1 / 2 ^ 16 * (1 / 2 ^ 14) \<le> w * fc_1e4" using w(2) f(1) by (intro mult_mono) simp_all
  then have lo: "1 / 2 ^ 30 \<le> w * fc_1e4" by simp
  have "w * fc_1e4 \<le> 1 / 2 ^ 13 * (1 / 2 ^ 13)" using w(2,3) f by (intro mult_mono) simp_all
  then have hi: "w * fc_1e4 \<le> 1 / 2 ^ 26" by simp
  obtain t where t: "round_f32 (w * fc_1e4) = Some t" "1 / 2 ^ 30 \<le> t" "t \<le> 1 / 2 ^ 26"
    using round_f32_between[of "- 30" "w * fc_1e4" "- 26"] lo hi
    by (auto simp add: powr_minus_divide)
  have "fdiv headDim_f32 (Some 48000) = Some w"
    by (simp only: h(1)) (simp add: fdiv_Some w(1))
  then have "tanArg_f32 fc_1e4 48000 = Some t"
    by (simp only: tanArg_f32_def fmul_Some t(1))
  then show ?thesis using t(2,3) by blast
qed

lemma db2mag_f32_0: "db2mag_f32 (Some 0) = Some 1"
  by (simp add: db2mag_f32_def fdiv_Some round_f32_0 round_f32_1)

lemma calcIIRCoeffs_f32_tiny_cutoff:
  "f32_between 0 (pi / 2) (tanArg_f32 fc_1e4 48000)"
  "v0tanF_f32 0 fc_1e4 48000 \<noteq> None"
  "calcIIRCoeffs_f32 0 0 fc_1e4 48000 = (Some 1, Some (- 1), Some (- 1))"
proof -
  obtain t where t: "tanArg_f32 fc_1e4 48000 = Some t" "1 / 2 ^ 30 \<le> t" "t \<le> 1 / 2 ^ 26"
    using tanArg_f32_tiny by blast
  have t0: "0 < t" using t(2) by (simp add: field_simps) 
  have t1: "t \<le> 1 / 2"
  proof -
    have "(1::real) / 2 ^ 26 \<le> 1 / 2" by simp
    then show ?thesis using t(3) by linarith
  qed
  have "t < pi / 2" using t1 pi_ge_two by simp
  then show "f32_between 0 (pi / 2) (tanArg_f32 fc_1e4 48000)"
    using t0 by (simp add: f32_between_def t(1))
  have tn: "0 \<le> tan t" "tan t \<le> 2 * t" "cos t \<noteq> 0"
    using tan_le_double[of t] t0 t1 by simp_all
  have "tan t \<le> 1 / 2 ^ 25" using tn(2) t(3) by simp
  then obtain tv where tv: "round_f32 (tan t) = Some tv" "0 \<le> tv" "tv \<le> 1 / 2 ^ 25"
    using round_f32_upto[of "tan t" "- 25"] tn(1) by (auto simp add: powr_minus_divide)
  have tanF: "tanf (tanArg_f32 fc_1e4 48000) = Some tv"
    using tn(3) by (simp add: tanf_def t(1) tv(1))
  obtain x where x: "round_f32 tv = Some x" "0 \<le> x" "x \<le> 1 / 2 ^ 25"
    using round_f32_upto[of tv "- 25"] tv(2,3) by (auto simp add: powr_minus_divide)
  have v0tanF: "fmul (db2mag_f32 (Some 0)) (tanf (tanArg_f32 fc_1e4 48000)) = Some x"
    by (simp add: db2mag_f32_0 tanF fmul_Some x(1))
  then show "v0tanF_f32 0 fc_1e4 48000 \<noteq> None" by (simp add: v0tanF_f32_def)
  have x1: "x < 1"
  proof -
    have "(1::real) / 2 ^ 25 < 1" by simp
    then show ?thesis using x(3) by linarith
  qed
  have "round_mag \<bar>x - 1\<bar> = 1"
    using round_mag_below_1[of x] x(2,3) x1 by (simp add: abs_if)
  then have num: "round_f32 (x - 1) = Some (- 1)"
    using x1 by (simp add: round_f32_def Let_def)
  have "round_mag \<bar>x + 1\<bar> = 1"
    using round_mag_above_1[of x] x(2,3) by (simp add: add.commute)
  then have den: "round_f32 (x + 1) = Some 1"
    using x(2) by (simp add: round_f32_def Let_def)
  have a_c: "fdiv (fsub (Some x) (Some 1)) (fadd (Some x) (Some 1)) = Some (- 1)"
    by (simp add: fdiv_Some fsub_Some fadd_Some num den round_f32_m1)
  show "calcIIRCoeffs_f32 0 0 fc_1e4 48000 = (Some 1, Some (- 1), Some (- 1))"
    unfolding calcIIRCoeffs_f32_def Let_def v0tanF a_c
    by (simp add: db2mag_f32_0 fmul_Some fsub_Some fadd_Some round_f32_0 round_f32_1 round_f32_m1)
qed

lemma round_f32_1e4: "round_f32 (1 / 10000) = Some fc_1e4"
proof -
  define a :: real where "a = 1 / 10000"
  have a: "0 < a" by (simp add: a_def)
  have e: "f32_exp a = - 14"
  proof (rule f32_exp_eq)
    show "2 powr real_of_int (- 14) \<le> a" by (simp add: a_def powr_minus_divide)
    show "a < 2 powr real_of_int (- 14 + 1)" by (simp add: a_def powr_minus_divide)
    show "- 126 \<le> (- 14::int)" by simp
  qed
  have u: "(2::real) powr of_int (- 14 - 23 :: int) = 1 / 2 ^ 37"
    by (simp add: powr_minus_divide)
  have m: "rne (a / (1 / 2 ^ 37)) = 13743895"
    by (rule rne_near_int) (simp add: a_def)
  have "round_mag a = of_int (rne (a / (1 / 2 ^ 37))) * (1 / 2 ^ 37)"
    unfolding round_mag_pos_eq[OF a] e u ..
  also have "\<dots> = fc_1e4" unfolding m by (simp add: fc_1e4_def)
  finally have r: "round_mag a = fc_1e4" .
  have "fc_1e4 < 2 ^ 128" by (simp add: fc_1e4_def)
  then show ?thesis
    using r a by (simp add: round_f32_def Let_def a_def)
qed

section \<open>Properties\<close>

subsection \<open>Shelf parameter generator\<close>

text \<open>
  C2. For every table index \<open>i\<close> in [0, 18] and every \<open>rho > 0\<close>, \<^verbatim>\<open>calcHighShelfParams\<close>
  reads the tables in range and returns
  \<open>g0 = (p11[i] rho + p21[i]) / (rho\<^sup>2 + q11[i] rho + q21[i])\<close>,
  \<open>gInf = (p12[i] rho + p22[i]) / (rho\<^sup>2 + q12[i] rho + q22[i])\<close> and
  \<open>fc = ((p13[i] rho\<^sup>2 + p23[i] rho + p33[i]) / (rho\<^sup>2 + q13[i] rho + q23[i])) * (343 / (2 \<pi> 0.09096))\<close>.
\<close>

theorem calcHighShelfParams_formula:
  assumes "0 \<le> i" and "i \<le> 18" and "0 < rho"
  shows "calcHighShelfParams i rho =
     Inr ((p11 ! nat i * rho + p21 ! nat i) / (rho\<^sup>2 + q11 ! nat i * rho + q21 ! nat i),
          (p12 ! nat i * rho + p22 ! nat i) / (rho\<^sup>2 + q12 ! nat i * rho + q22 ! nat i),
          ((p13 ! nat i * rho\<^sup>2 + p23 ! nat i * rho + p33 ! nat i)
             / (rho\<^sup>2 + q13 ! nat i * rho + q23 ! nat i)) * (343 / (2 * pi * 0.09096)))"
  using assms(1,2)
  by (simp add: calcHighShelfParams_in_range sosDiv2PiA_def SAF_PI_def a_head_def)

theorem calcHighShelfParams_formula_witness:
  "(0::int) \<le> 0 \<and> (0::int) \<le> 18 \<and> (0::real) < 1 \<and>
   calcHighShelfParams 0 1 =
     Inr (3280 / 79, - 2267 / 390, (13 / 17) * (343 / (2 * pi * 0.09096)))"
  using calcHighShelfParams_formula[of 0 1]
  by (simp add: p11_def p21_def q11_def q21_def p12_def p22_def q12_def q22_def
        p13_def p23_def p33_def q13_def q23_def)

subsection \<open>Azimuth interpolator\<close>

text \<open>
  C9. For every \<open>theta\<close> in [0, 180) and every \<open>rho\<close>, the table reads of
  \<^verbatim>\<open>interpHighShelfParams\<close> are in bounds: the lower index, the truncation of
  \<open>theta / 10\<close>, lies in [0, 17], the upper index is the lower one plus 1 and lies in
  [1, 18], the interpolation factor \<open>thetaDiv10 - lowerIndex\<close> lies in [0, 1), and both
  calls of \<^verbatim>\<open>calcHighShelfParams\<close> as well as the interpolator itself return a triple.
\<close>

theorem interpHighShelfParams_nominal_in_bounds:
  assumes "0 \<le> theta" and "theta < 180"
  shows "\<exists>lo up. float_to_int (theta / 10) = Inr lo \<and>
            interp_indices (theta / 10) = Inr (lo, up) \<and>
            0 \<le> lo \<and> lo \<le> 17 \<and> up = lo + 1 \<and> 1 \<le> up \<and> up \<le> 18 \<and>
            0 \<le> theta / 10 - of_int lo \<and> theta / 10 - of_int lo < 1 \<and>
            (\<exists>s1 s2. calcHighShelfParams lo rho = Inr s1 \<and>
                     calcHighShelfParams up rho = Inr s2) \<and>
            (\<exists>s. interpHighShelfParams theta rho = Inr s)"
proof -
  define x where "x = theta / 10"
  have x0: "0 \<le> x" and x18: "x < 18" using assms by (simp_all add: x_def)
  have lo: "0 \<le> \<lfloor>x\<rfloor>" using x0 by simp
  have hi: "\<lfloor>x\<rfloor> \<le> 17" using x18 floor_less_iff[of x 18] by simp
  have cast: "float_to_int x = Inr \<lfloor>x\<rfloor>"
    using x0 x18 by (intro float_to_int_nonneg) auto
  have idx: "interp_indices x = Inr (\<lfloor>x\<rfloor>, \<lfloor>x\<rfloor> + 1)"
    using x0 x18 by (rule interp_indices_nominal)
  have frac: "0 \<le> x - of_int \<lfloor>x\<rfloor>" "x - of_int \<lfloor>x\<rfloor> < 1"
    by linarith+
  have c1: "\<exists>s1. calcHighShelfParams \<lfloor>x\<rfloor> rho = Inr s1"
    using calcHighShelfParams_in_range[of "\<lfloor>x\<rfloor>" rho] lo hi by simp
  have c2: "\<exists>s2. calcHighShelfParams (\<lfloor>x\<rfloor> + 1) rho = Inr s2"
    using calcHighShelfParams_in_range[of "\<lfloor>x\<rfloor> + 1" rho] lo hi by simp
  have res: "\<exists>s. interpHighShelfParams theta rho = Inr s"
    using c1 c2 idx by (auto simp add: interpHighShelfParams_def Let_def x_def[symmetric])
  show ?thesis
    using cast idx lo hi frac c1 c2 res unfolding x_def by auto
qed

theorem interpHighShelfParams_nominal_in_bounds_witness:
  "(0 :: real) \<le> 45 \<and> (45 :: real) < 180 \<and>
   float_to_int (45 / 10) = Inr 4 \<and> interp_indices (45 / 10) = Inr (4, 5) \<and>
   (\<exists>s. interpHighShelfParams 45 1 = Inr s)"
proof -
  have h: "(0 :: real) \<le> 45" "(45 :: real) < 180" by simp_all
  have f: "float_to_int (45 / 10) = Inr 4"
    by (simp add: float_to_int_def Let_def INT_MIN_value INT_MAX_value)
  from interpHighShelfParams_nominal_in_bounds[OF h, of 1] f h show ?thesis by auto
qed

text \<open>
  C1. The claim: for \<open>theta \<ge> 180\<close> with upper index 19 the index pair collapses to
  (17, 18). The code compares the upper index with \<^verbatim>\<open>numAz_table = sizeof(q23)\<close>, which
  is the size of the row in bytes, 76, not its 19 entries. At \<open>theta = 180\<close> (and at 185)
  the pair stays (18, 19), and the read at index 19 is outside the tables. The collapse
  is taken at upper index 76 only, as at \<open>theta = 750\<close>.
\<close>

theorem interp_indices_at_180_not_collapsed:
  "numAz_table = 76 \<and>
   interp_indices (180 / 10) = Inr (18, 19) \<and>
   interp_indices (185 / 10) = Inr (18, 19) \<and>
   calcHighShelfParams 19 1 = Inl (IndexOutOfBounds 19) \<and>
   interp_indices (750 / 10) = Inr (74, 75)"
  by (simp add: numAz_table_value interp_indices_def float_to_int_def INT_MIN_def INT_MAX_def
       Let_def calcHighShelfParams_out_of_range)



text \<open>
  C8, amended. The claim that no table read leaves [0, 18] for \<open>theta\<close> outside [0, 180]
  fails: at \<open>theta = 200\<close> the lower index is 20, at \<open>theta = -10\<close> it is -1. What holds:
  for \<open>theta\<close> in (-10, 0) the cast truncates toward zero, the indices are 0 and 1, both
  reads are in range and the result is the extrapolation with the negative factor
  \<open>theta / 10\<close>; for \<open>theta \<le> -10\<close> and for \<open>theta \<ge> 190\<close> no triple is returned, since
  the index computation or a table read is undefined.
\<close>

theorem interpHighShelfParams_outside_nominal_range:
  "(- 10 < theta \<and> theta < 0 \<longrightarrow>
      interp_indices (theta / 10) = Inr (0, 1) \<and>
      (\<exists>g0_1 gInf_1 fc_1 g0_2 gInf_2 fc_2.
          calcHighShelfParams 0 rho = Inr (g0_1, gInf_1, fc_1) \<and>
          calcHighShelfParams 1 rho = Inr (g0_2, gInf_2, fc_2) \<and>
          interpHighShelfParams theta rho =
            Inr (interpolate_lin g0_1 g0_2 (theta / 10),
                 interpolate_lin gInf_1 gInf_2 (theta / 10),
                 interpolate_lin fc_1 fc_2 (theta / 10)))) \<and>
   (theta \<le> - 10 \<or> 190 \<le> theta \<longrightarrow> (\<exists>e. interpHighShelfParams theta rho = Inl e))"
proof (intro conjI impI)
  assume a: "- 10 < theta \<and> theta < 0"
  then show idx: "interp_indices (theta / 10) = Inr (0, 1)"
    by (intro interp_indices_small_negative) simp_all
  obtain s1 where s1: "calcHighShelfParams 0 rho = Inr s1"
    using calcHighShelfParams_in_range[of 0 rho] by simp
  obtain s2 where s2: "calcHighShelfParams 1 rho = Inr s2"
    using calcHighShelfParams_in_range[of 1 rho] by simp
  show "\<exists>g0_1 gInf_1 fc_1 g0_2 gInf_2 fc_2.
          calcHighShelfParams 0 rho = Inr (g0_1, gInf_1, fc_1) \<and>
          calcHighShelfParams 1 rho = Inr (g0_2, gInf_2, fc_2) \<and>
          interpHighShelfParams theta rho =
            Inr (interpolate_lin g0_1 g0_2 (theta / 10),
                 interpolate_lin gInf_1 gInf_2 (theta / 10),
                 interpolate_lin fc_1 fc_2 (theta / 10))"
    by (cases s1; cases s2) (simp add: interpHighShelfParams_def Let_def idx s1 s2)
next
  assume "theta \<le> - 10 \<or> 190 \<le> theta"
  then have "theta / 10 \<le> - 1 \<or> 19 \<le> theta / 10" by auto
  from interp_indices_far[OF this]
  show "\<exists>e. interpHighShelfParams theta rho = Inl e"
    using interpHighShelfParams_index_error interpHighShelfParams_lower_out_of_range by blast
qed

theorem interpHighShelfParams_outside_nominal_range_witness:
  "- 10 < (- 5 :: real) \<and> (- 5 :: real) < 0 \<and>
   interp_indices (- 5 / 10) = Inr (0, 1) \<and>
   (\<exists>s. interpHighShelfParams (- 5) 1 = Inr s) \<and>
   ((200 :: real) \<le> - 10 \<or> 190 \<le> (200 :: real)) \<and>
   (\<exists>e. interpHighShelfParams 200 1 = Inl e)"
  using interpHighShelfParams_outside_nominal_range[of "- 5" 1]
        interpHighShelfParams_outside_nominal_range[of 200 1]
  by auto

theorem interpHighShelfParams_total_counterexample:
  "interpHighShelfParams 200 1 = Inl (IndexOutOfBounds 20) \<and>
   interpHighShelfParams (- 10) 1 = Inl (IndexOutOfBounds (- 1))"
  by (simp add: interpHighShelfParams_def interp_indices_def float_to_int_def
        INT_MIN_value INT_MAX_value numAz_table_value Let_def
        calcHighShelfParams_out_of_range ceiling_minus)

subsection \<open>IIR coefficient synthesizer\<close>

text \<open>
  C3. For all inputs, \<^verbatim>\<open>calcIIRCoeffs\<close> returns the coefficients given by
  \<open>V0 = 10 ^ (gInfDb / 20)\<close>, \<open>G0 = 10 ^ (g0Db / 20)\<close>,
  \<open>tanTerm = tan ((\<pi> 0.0875 / 0.09096) fcHz / sampleRateHz)\<close>,
  \<open>a1 = (V0 tanTerm - 1) / (V0 tanTerm + 1)\<close>, \<open>v = (V0 - 1) / 2\<close>,
  \<open>b0 = G0 (v - v a1 + 1)\<close> and \<open>b1 = G0 (v a1 - v + a1)\<close>.
\<close>

theorem calcIIRCoeffs_formula:
  "calcIIRCoeffs g0Db gInfDb fcHz sampleRateHz =
    (let V0 = 10 powr (gInfDb / 20);
         G0 = 10 powr (g0Db / 20);
         tanTerm = tan ((pi * 0.0875 / 0.09096) * fcHz / sampleRateHz);
         a1 = (V0 * tanTerm - 1) / (V0 * tanTerm + 1);
         v = (V0 - 1) / 2
     in (G0 * (v - v * a1 + 1), G0 * (v * a1 - v + a1), a1))"
proof -
  have arg: "(headDim / sampleRateHz) * fcHz = (pi * 0.0875 / 0.09096) * fcHz / sampleRateHz"
    by (simp add: headDim_def SAF_PI_def a_0_def a_head_def)
  show ?thesis
    unfolding calcIIRCoeffs_def db2mag_def arg by (simp add: Let_def)
qed

text \<open>
  C6, amended. Equal gains do not give \<open>b1 = 0\<close>, \<open>a1 = 0\<close>, \<open>b0 = 10 ^ (g0Db / 20)\<close>: at
  \<open>g0Db = gInfDb = 20\<close> and \<open>fc = 0\<close> the coefficients are (100, -100, -1). What holds:
  when the shelf gain \<open>gInfDb\<close> is 0 dB (\<open>V0 = 1\<close>), for every \<open>g0Db\<close>, \<open>fc\<close> and \<open>fs\<close>,
  \<open>b0 = 10 ^ (g0Db / 20)\<close> and \<open>b1 = b0 a1\<close> with \<open>a1 = (tanTerm - 1) / (tanTerm + 1)\<close>, so
  that \<open>(b0 + b1 z\<^sup>-\<^sup>1) / (1 + a1 z\<^sup>-\<^sup>1)\<close> is the pure gain \<open>b0\<close>.
\<close>

theorem calcIIRCoeffs_unit_shelf_gain:
  "calcIIRCoeffs g0Db 0 fcHz sampleRateHz =
    (let tanTerm = tan ((pi * 0.0875 / 0.09096) * fcHz / sampleRateHz);
         a1 = (tanTerm - 1) / (tanTerm + 1);
         b0 = 10 powr (g0Db / 20)
     in (b0, b0 * a1, a1))"
proof -
  have arg: "(headDim / sampleRateHz) * fcHz = (pi * 0.0875 / 0.09096) * fcHz / sampleRateHz"
    by (simp add: headDim_def SAF_PI_def a_0_def a_head_def)
  show ?thesis
    unfolding calcIIRCoeffs_def db2mag_def arg by (simp add: Let_def)
qed

theorem calcIIRCoeffs_equal_gains_counterexample:
  "calcIIRCoeffs 20 20 0 48000 = (100, - 100, - 1)"
  by (simp add: calcIIRCoeffs_def db2mag_def Let_def)

text \<open>
  In exact real arithmetic: whenever the tangent argument \<open>(headDim / fs) fc\<close> lies in \<open>(0, \<pi>/2)\<close>, the
  denominator coefficient returned by \<^verbatim>\<open>calcIIRCoeffs\<close> satisfies \<open>-1 < a1 < 1\<close>, for all
  gains \<open>g0Db\<close> and \<open>gInfDb\<close>.
\<close>

lemma calcIIRCoeffs_a1_stable:
  assumes "0 < (headDim / fs) * fc" and "(headDim / fs) * fc < pi / 2"
  shows "\<exists>b0 b1 a1. calcIIRCoeffs g0Db gInfDb fc fs = (b0, b1, a1) \<and> - 1 < a1 \<and> a1 < 1"
proof -
  define x where "x = db2mag gInfDb * tan ((headDim / fs) * fc)"
  have "0 < db2mag gInfDb" by (simp add: db2mag_def)
  moreover have "0 < tan ((headDim / fs) * fc)" using assms by (rule tan_gt_zero)
  ultimately have x: "0 < x" by (simp add: x_def)
  then have "- 1 < (x - 1) / (x + 1)" and "(x - 1) / (x + 1) < 1"
    by (simp_all add: field_simps)
  then show ?thesis
    by (simp add: calcIIRCoeffs_def Let_def x_def)
qed

lemma calcIIRCoeffs_a1_stable_witness:
  "0 < (headDim / 48000) * 1000 \<and> (headDim / 48000) * 1000 < pi / 2 \<and>
   (\<exists>b0 b1 a1. calcIIRCoeffs 0 0 1000 48000 = (b0, b1, a1) \<and> - 1 < a1 \<and> a1 < 1)"
proof -
  have a: "0 < (headDim / 48000) * 1000"
    by (simp add: headDim_def SAF_PI_def a_0_def a_head_def)
  have b: "(headDim / 48000) * 1000 < pi / 2"
    by (simp add: headDim_def SAF_PI_def a_0_def a_head_def)
  from calcIIRCoeffs_a1_stable[OF a b, of 0 0] a b show ?thesis by blast
qed

text \<open>
  C10, amended. In the single-precision arithmetic of the code the bound on \<open>a1\<close> is not
  strict: with \<open>g0 = gInf = 0\<close>, \<open>fs = 48000\<close> and \<open>fc\<close> the \<^verbatim>\<open>float\<close> nearest to \<open>10\<^sup>-\<^sup>4\<close>, the
  tangent argument lies in \<open>(0, \<pi>/2)\<close>, \<open>x - 1\<close> and \<open>x + 1\<close> round to \<open>-1\<close> and \<open>1\<close>, and the
  coefficients are \<open>(1, -1, -1)\<close>. What holds: whenever the computed tangent argument
  \<open>(headDim / fs) fc\<close> lies in \<open>(0, \<pi>/2)\<close> and the product \<open>V0 tan(...)\<close> is finite, the
  returned \<open>a1\<close> is finite and \<open>-1 \<le> a1 \<le> 1\<close>, for all gains \<open>g0Db\<close> and \<open>gInfDb\<close>.
\<close>

theorem calcIIRCoeffs_f32_a1_bounded:
  assumes "f32_between 0 (pi / 2) (tanArg_f32 fc fs)"
      and "v0tanF_f32 gInf fc fs \<noteq> None"
  shows "\<exists>b0 b1 a1. calcIIRCoeffs_f32 g0 gInf fc fs = (b0, b1, Some a1) \<and> - 1 \<le> a1 \<and> a1 \<le> 1"
proof -
  obtain t where t: "tanArg_f32 fc fs = Some t" "0 < t" "t < pi / 2"
    using assms(1) by (auto simp add: f32_between_def split: option.splits)
  obtain x where x: "v0tanF_f32 gInf fc fs = Some x" using assms(2) by auto
  obtain v0 tv where v0: "db2mag_f32 (Some gInf) = Some v0"
      and tv: "tanf (Some t) = Some tv" and r: "round_f32 (v0 * tv) = Some x"
    using x t(1) by (auto simp add: v0tanF_f32_def fmul_def split: option.splits)
  have "0 \<le> v0" using v0 by (rule db2mag_f32_nonneg)
  moreover have "0 \<le> tv" using tv t(2,3) by (rule tanf_nonneg)
  ultimately have z: "0 \<le> v0 * tv" by simp
  have x0: "0 \<le> x" using r z by (rule round_f32_nonneg(1))
  obtain a where a: "fdiv (fsub (Some x) (Some 1)) (fadd (Some x) (Some 1)) = Some a"
      "- 1 \<le> a" "a \<le> 1"
    using a_c_bounded[OF x0 r z] by blast
  have vt: "fmul (db2mag_f32 (Some gInf)) (tanf (tanArg_f32 fc fs)) = Some x"
    using x by (simp add: v0tanF_f32_def)
  show ?thesis
    using a by (simp add: calcIIRCoeffs_f32_def Let_def vt)
qed

theorem calcIIRCoeffs_f32_a1_bounded_witness:
  "f32_between 0 (pi / 2) (tanArg_f32 (13743895 / 2 ^ 37) 48000) \<and>
   v0tanF_f32 0 (13743895 / 2 ^ 37) 48000 \<noteq> None \<and>
   (\<exists>b0 b1 a1. calcIIRCoeffs_f32 0 0 (13743895 / 2 ^ 37) 48000 = (b0, b1, Some a1)
       \<and> - 1 \<le> a1 \<and> a1 \<le> 1)"
proof -
  have a: "f32_between 0 (pi / 2) (tanArg_f32 (13743895 / 2 ^ 37) 48000)"
    using calcIIRCoeffs_f32_tiny_cutoff(1) by (simp add: fc_1e4_def)
  have b: "v0tanF_f32 0 (13743895 / 2 ^ 37) 48000 \<noteq> None"
    using calcIIRCoeffs_f32_tiny_cutoff(2) by (simp add: fc_1e4_def)
  from calcIIRCoeffs_f32_a1_bounded[OF a b, of 0] a b show ?thesis by blast
qed

theorem calcIIRCoeffs_f32_a1_counterexample:
  "f32_between 0 (pi / 2) (tanArg_f32 (13743895 / 2 ^ 37) 48000) \<and>
   calcIIRCoeffs_f32 0 0 (13743895 / 2 ^ 37) 48000 = (Some 1, Some (- 1), Some (- 1))"
  using calcIIRCoeffs_f32_tiny_cutoff(1,3) by (simp add: fc_1e4_def)

subsection \<open>Block filter driver\<close>

text \<open>
  C4. \<^verbatim>\<open>applyDVF\<close> is the composition of the other components: one triple from
  \<^verbatim>\<open>interpHighShelfParams\<close>, one triple from \<^verbatim>\<open>calcIIRCoeffs\<close>, then one call of the
  external routine on the whole block with order 2, numerator \<open>[b0, b1]\<close>, denominator
  \<open>[1, a1]\<close> and the caller's state buffer as it was passed in. Where the interpolator
  has no defined result, neither has the driver.
\<close>

theorem applyDVF_composition:
  "applyDVF applyIIR theta rho in_signal nSamples fs wz =
     (case interpHighShelfParams theta rho of
        Inl e \<Rightarrow> Inl e
      | Inr (iG0, iGInf, iFc) \<Rightarrow>
          (case calcIIRCoeffs iG0 iGInf iFc fs of
             (b0, b1, a1) \<Rightarrow> Inr (applyIIR in_signal nSamples 2 [b0, b1] [1, a1] wz)))"
  by (simp add: applyDVF_def Let_def split: sum.split prod.split)

subsection \<open>Azimuth remapper\<close>


text \<open>
  C7. \<^verbatim>\<open>convertFrontalDoAToIpsilateral\<close> maps 90 to (0, 180), 0 to (90, 90) and -90 to
  (180, 0); for every frontal angle in (-180, 180] the left azimuth is \<open>|90 - thetaFront|\<close>,
  folded to \<open>360 - |90 - thetaFront|\<close> when that exceeds 180, the right azimuth is 180
  minus the left one, and the two sum to 180.
\<close>

theorem convertFrontalDoAToIpsilateral_spec:
  "convertFrontalDoAToIpsilateral 90 = (0, 180) \<and>
   convertFrontalDoAToIpsilateral 0 = (90, 90) \<and>
   convertFrontalDoAToIpsilateral (- 90) = (180, 0) \<and>
   (\<forall>thetaFront. - 180 < thetaFront \<and> thetaFront \<le> 180 \<longrightarrow>
      (\<exists>thetaL thetaR.
         convertFrontalDoAToIpsilateral thetaFront = (thetaL, thetaR) \<and>
         thetaL = (if \<bar>90 - thetaFront\<bar> > 180 then 360 - \<bar>90 - thetaFront\<bar>
                   else \<bar>90 - thetaFront\<bar>) \<and>
         thetaR = 180 - thetaL \<and>
         thetaL + thetaR = 180))"
  by (simp add: convertFrontalDoAToIpsilateral_def Let_def)

theorem convertFrontalDoAToIpsilateral_spec_witness:
  "- 180 < (- 135 :: real) \<and> (- 135 :: real) \<le> 180 \<and>
   convertFrontalDoAToIpsilateral (- 135) = (135, 45)"
proof -
  from convertFrontalDoAToIpsilateral_spec
  have "- 180 < (- 135 :: real) \<and> (- 135 :: real) \<le> 180 \<longrightarrow>
      (\<exists>thetaL thetaR.
         convertFrontalDoAToIpsilateral (- 135) = (thetaL, thetaR) \<and>
         thetaL = (if \<bar>90 - (- 135 :: real)\<bar> > 180 then 360 - \<bar>90 - (- 135 :: real)\<bar>
                   else \<bar>90 - (- 135)\<bar>) \<and>
         thetaR = 180 - thetaL \<and>
         thetaL + thetaR = 180)"
    by blast
  then show ?thesis by simp
qed

end
